theory Spec2Isabelle
  imports Main "HOL-Library.AList"
begin

section \<open>Data model\<close>

text \<open>
  The source file holds three TypeScript modules: the hosts filter builders
  (\<open>buildExistsHostsFilter\<close>, \<open>buildCombinedHostsFilter\<close>, \<open>retrieveFieldsFromFilter\<close>),
  a browser test script, and the field list sidebar component with its helper
  \<open>calculateMultiFields\<close>. The embedding covers the builders and the sidebar's
  selection and grouping logic.
\<close>

subsection \<open>JavaScript truthiness\<close>

text \<open>\<open>!s\<close> on a string is true exactly for the empty string; on \<open>undefined\<close> it is true.\<close>

definition truthy_string :: "string \<Rightarrow> bool" where
  "truthy_string s = (s \<noteq> [])"

definition truthy_opt_bool :: "bool option \<Rightarrow> bool" where
  "truthy_opt_bool v = (case v of None \<Rightarrow> False | Some b \<Rightarrow> b)"

subsection \<open>Fields and data views\<close>

text \<open>
  \<open>field.subType\<close> is optional and carries either a multi-field parent
  (\<open>{multi: {parent}}\<close>) or a nested path (\<open>{nested: {path}}\<close>).
\<close>

datatype IFieldSubType = SubTypeMulti (multi_parent: string) | SubTypeNested (nested_path: string)

record DataViewField =
  name :: string
  ftype :: string
  subType :: "IFieldSubType option"

record DataView =
  dv_id :: "string option"
  dv_fields :: "DataViewField list"

text \<open>
  Modelled from the spec: \<open>getDataViewFieldSubtypeMulti\<close> of the query library is
  imported by the sidebar and is not in the source. It yields the field's multi-field
  sub-type (the declaration of a parent) when the field has one, \<open>undefined\<close> otherwise.
\<close>

definition getDataViewFieldSubtypeMulti :: "DataViewField \<Rightarrow> IFieldSubType option" where
  "getDataViewFieldSubtypeMulti field =
     (case subType field of
        Some (SubTypeMulti p) \<Rightarrow> Some (SubTypeMulti p)
      | _ \<Rightarrow> None)"

text \<open>
  Modelled from the spec: \<open>DataView.getFieldByName\<close> is a method of the data view
  class, which is not in the source. It looks a field up by name in the schema and
  yields \<open>undefined\<close> when no field has that name.
\<close>

definition getFieldByName :: "DataView \<Rightarrow> string \<Rightarrow> DataViewField option" where
  "getFieldByName dataView n = find (\<lambda>f. name f = n) (dv_fields dataView)"

subsection \<open>Plain objects, errors\<close>

datatype json = JString string | JArray "json list" | JObject "(string \<times> json) list"

text \<open>Reading a property of \<open>undefined\<close> throws a \<open>TypeError\<close>.\<close>

datatype error = TypeError

section \<open>Hosts filter builders\<close>

datatype BooleanRelation = Relation_AND | Relation_OR

text \<open>
  What the query library's builders return is kept symbolic: the builder that made the
  filter and the arguments it was given.
\<close>

datatype BuiltFilter =
    BuiltExists DataViewField DataView
  | BuiltPhrase DataViewField string DataView
  | BuiltCombined BooleanRelation "BuiltFilter list" DataView

datatype HostsFilter = RawQuery json | Built BuiltFilter

text \<open>
  Modelled from the spec: \<open>buildExistsFilter\<close>, \<open>buildPhraseFilter\<close> and
  \<open>buildCombinedFilter\<close> of the query library are not in the source. The first two
  read properties of the field they are given, so a field that is \<open>undefined\<close> (the
  lookup found nothing; the \<open>!\<close> after it is erased at compile time) is a null
  dereference. \<open>buildCombinedFilter\<close> takes the relation, the filters and the data view,
  and no field.
\<close>

definition buildExistsFilter :: "DataViewField option \<Rightarrow> DataView \<Rightarrow> error + BuiltFilter" where
  "buildExistsFilter indexField dataView =
     (case indexField of None \<Rightarrow> Inl TypeError | Some f \<Rightarrow> Inr (BuiltExists f dataView))"

definition buildPhraseFilter ::
  "DataViewField option \<Rightarrow> string \<Rightarrow> DataView \<Rightarrow> error + BuiltFilter" where
  "buildPhraseFilter indexField v dataView =
     (case indexField of None \<Rightarrow> Inl TypeError | Some f \<Rightarrow> Inr (BuiltPhrase f v dataView))"

definition buildCombinedFilter ::
  "BooleanRelation \<Rightarrow> BuiltFilter list \<Rightarrow> DataView \<Rightarrow> BuiltFilter" where
  "buildCombinedFilter relation filters dataView = BuiltCombined relation filters dataView"

text \<open>\<open>Array.prototype.map\<close> with a callback that may throw: the first throw ends the map.\<close>

fun array_map :: "('a \<Rightarrow> error + 'b) \<Rightarrow> 'a list \<Rightarrow> error + 'b list" where
  "array_map f [] = Inr []"
| "array_map f (x # xs) =
     (case f x of
        Inl e \<Rightarrow> Inl e
      | Inr y \<Rightarrow> (case array_map f xs of Inl e \<Rightarrow> Inl e | Inr ys \<Rightarrow> Inr (y # ys)))"

definition buildExistsHostsFilter :: "string \<Rightarrow> DataView option \<Rightarrow> error + HostsFilter" where
  "buildExistsHostsFilter field dataView =
     (case dataView of
        None \<Rightarrow>
          Inr (RawQuery (JObject
            [(''meta'', JObject []),
             (''query'', JObject [(''exists'', JObject [(''field'', JString field)])])]))
      | Some dv \<Rightarrow>
          (let indexField = getFieldByName dv field
           in case buildExistsFilter indexField dv of
                Inl e \<Rightarrow> Inl e
              | Inr flt \<Rightarrow> Inr (Built flt)))"

definition buildCombinedHostsFilter ::
  "string \<Rightarrow> string list \<Rightarrow> DataView option \<Rightarrow> error + HostsFilter" where
  "buildCombinedHostsFilter field values dataView =
     (case dataView of
        None \<Rightarrow>
          Inr (RawQuery (JObject
            [(''query'', JObject [(''terms'', JObject [(field, JArray (map JString values))])]),
             (''meta'', JObject [])]))
      | Some dv \<Rightarrow>
          (let indexField = getFieldByName dv field
           in case array_map (\<lambda>v. buildPhraseFilter indexField v dv) values of
                Inl e \<Rightarrow> Inl e
              | Inr filtersFromValues \<Rightarrow>
                  Inr (Built (buildCombinedFilter Relation_OR filtersFromValues dv))))"

subsection \<open>Collecting the keys of filters\<close>

text \<open>
  Of a filter, \<open>retrieveFieldsFromFilter\<close> reads \<open>meta.key\<close> and, when the library's
  \<open>isCombinedFilter\<close> says the filter is a combined one, \<open>meta.params\<close>, the filters it
  combines.
\<close>

datatype Filter =
    PlainFilter (meta_key: "string option")
  | CombinedFilter (meta_key: "string option") (meta_params: "Filter list")

text \<open>
  Modelled from the spec: \<open>isCombinedFilter\<close> of the query library is not in the
  source; it tells a combined filter from the others.
\<close>

fun isCombinedFilter :: "Filter \<Rightarrow> bool" where
  "isCombinedFilter (CombinedFilter k ps) = True"
| "isCombinedFilter (PlainFilter k) = False"

text \<open>
  The accumulator \<open>fields\<close> is one array that every call pushes to: the recursive call
  gets the same reference and its return value is dropped. Arrays live in a store, and
  a reference is an address of the store (\<open>fields_ref\<close> below is the parameter
  \<open>fields\<close>).
\<close>

type_synonym ref = nat

record store =
  arrays :: "ref \<Rightarrow> string list"
  next_ref :: ref

definition array_push :: "store \<Rightarrow> ref \<Rightarrow> string \<Rightarrow> store" where
  "array_push s r x = s\<lparr>arrays := (arrays s)(r := arrays s r @ [x])\<rparr>"

text \<open>The array literal \<open>[]\<close>: a new empty array at the next free address.\<close>

definition array_new :: "store \<Rightarrow> ref \<times> store" where
  "array_new s = (next_ref s, s\<lparr>arrays := (arrays s)(next_ref s := []), next_ref := Suc (next_ref s)\<rparr>)"

function retrieveFieldsFromFilter :: "Filter list \<Rightarrow> ref \<Rightarrow> store \<Rightarrow> ref \<times> store" where
  "retrieveFieldsFromFilter [] fields_ref s = (fields_ref, s)"
| "retrieveFieldsFromFilter (flt # rest) fields_ref s =
     (let s1 = (if isCombinedFilter flt
                then snd (retrieveFieldsFromFilter (meta_params flt) fields_ref s)
                else s);
          s2 = (case meta_key flt of
                  None \<Rightarrow> s1
                | Some k \<Rightarrow> if truthy_string k then array_push s1 fields_ref k else s1)
      in retrieveFieldsFromFilter rest fields_ref s2)"
  by pat_completeness auto
termination
proof (relation "measure (\<lambda>(filters, fields_ref, s). size_list size filters)")
  show "wf (measure (\<lambda>(filters, fields_ref, s). size_list size filters))" by simp
next
  fix flt :: Filter and rest :: "Filter list" and fields_ref :: ref and s :: store
  assume "isCombinedFilter flt"
  then show "((meta_params flt, fields_ref, s), flt # rest, fields_ref, s)
      \<in> measure (\<lambda>(filters, fields_ref, s). size_list size filters)"
    by (cases flt) simp_all
next
  fix flt :: Filter and rest :: "Filter list" and fields_ref :: ref and s s2 :: store
  show "((rest, fields_ref, s2), flt # rest, fields_ref, s)
      \<in> measure (\<lambda>(filters, fields_ref, s). size_list size filters)"
    by simp
qed

text \<open>With \<open>fields\<close> omitted, the default \<open>[]\<close> is evaluated at the call.\<close>

definition retrieveFieldsFromFilter_default :: "Filter list \<Rightarrow> store \<Rightarrow> ref \<times> store" where
  "retrieveFieldsFromFilter_default filters s =
     (let (fields_ref, s') = array_new s in retrieveFieldsFromFilter filters fields_ref s')"


section \<open>The field list sidebar\<close>

subsection \<open>The JavaScript \<open>Map\<close>\<close>

text \<open>
  A \<open>Map\<close> keeps its keys in insertion order; \<open>set\<close> on an existing key replaces the
  value where the key stands, on a new key it appends the entry.
\<close>

type_synonym ('k, 'v) JsMap = "('k \<times> 'v) list"

definition Map_get :: "('k, 'v) JsMap \<Rightarrow> 'k \<Rightarrow> 'v option" where
  "Map_get m k = map_of m k"

definition Map_set :: "('k, 'v) JsMap \<Rightarrow> 'k \<Rightarrow> 'v \<Rightarrow> ('k, 'v) JsMap" where
  "Map_set m k v = AList.update k v m"

subsection \<open>Multi-field grouping\<close>

record MultiField =
  field :: DataViewField
  isSelected :: bool

type_synonym MultiFieldsMap = "(string, MultiField list) JsMap"

text \<open>
  The selected fields map is a plain object used as a hash map from names to booleans.
  The read \<open>obj[name]\<close> finds an own property of the object first; when the object has
  none of that name, it finds the member of that name that every plain object inherits
  from \<open>Object.prototype\<close>, if there is one, and is \<open>undefined\<close> otherwise. The
  inherited members are functions, and \<open>__proto__\<close> reads as the prototype object: all
  of them are truthy.
\<close>

definition Object_prototype_members :: "string list" where
  "Object_prototype_members =
     [''constructor'', ''__defineGetter__'', ''__defineSetter__'', ''hasOwnProperty'',
      ''__lookupGetter__'', ''__lookupSetter__'', ''isPrototypeOf'', ''propertyIsEnumerable'',
      ''toString'', ''valueOf'', ''__proto__'', ''toLocaleString'']"

datatype PropertyValue = Undefined | OwnValue bool | InheritedMember

definition getProperty :: "(string \<rightharpoonup> bool) \<Rightarrow> string \<Rightarrow> PropertyValue" where
  "getProperty obj n =
     (case obj n of
        Some b \<Rightarrow> OwnValue b
      | None \<Rightarrow> if n \<in> set Object_prototype_members then InheritedMember else Undefined)"

fun Boolean :: "PropertyValue \<Rightarrow> bool" where
  "Boolean Undefined = False"
| "Boolean (OwnValue b) = b"
| "Boolean InheritedMember = True"

text \<open>\<open>Boolean(selectedFieldsMap?.[field.name])\<close>\<close>

definition isSelectedIn :: "(string \<rightharpoonup> bool) option \<Rightarrow> string \<Rightarrow> bool" where
  "isSelectedIn selectedFieldsMap n =
     (case selectedFieldsMap of
        None \<Rightarrow> False
      | Some obj \<Rightarrow> Boolean (getProperty obj n))"

text \<open>The body of the \<open>forEach\<close> callback; the map it mutates is passed and returned.\<close>

definition multiFieldsStep ::
  "(string \<rightharpoonup> bool) option \<Rightarrow> MultiFieldsMap \<Rightarrow> DataViewField \<Rightarrow> MultiFieldsMap" where
  "multiFieldsStep selectedFieldsMap m fld =
     (let subTypeMulti = getDataViewFieldSubtypeMulti fld;
          parent = map_option multi_parent subTypeMulti
      in case parent of
           None \<Rightarrow> m
         | Some p \<Rightarrow>
             if \<not> truthy_string p then m
             else
               let multiField = \<lparr>field = fld, isSelected = isSelectedIn selectedFieldsMap (name fld)\<rparr>;
                   value = (case Map_get m p of None \<Rightarrow> [] | Some v \<Rightarrow> v)
               in Map_set m p (value @ [multiField]))"

definition calculateMultiFields ::
  "DataViewField list option \<Rightarrow> (string \<rightharpoonup> bool) option \<Rightarrow> MultiFieldsMap option" where
  "calculateMultiFields allFields selectedFieldsMap =
     (case allFields of
        None \<Rightarrow> None
      | Some fs \<Rightarrow> Some (foldl (multiFieldsStep selectedFieldsMap) [] fs))"

subsection \<open>Multi-field grouping with its allocations\<close>

text \<open>
  \<open>calculateMultiFields\<close> once more, with the objects it creates and mutates in a heap:
  \<open>new Map()\<close> and the array literal \<open>[]\<close> allocate, \<open>value.push\<close> mutates the array
  that \<open>value\<close> refers to, and \<open>map.set\<close> mutates the map. The heap holds arrays of
  multi-fields and maps from parent names to array references; a reference is an index,
  and an allocation appends. A read or write through a reference outside the heap is a
  fault (\<open>None\<close>); the program has no such reference.
\<close>

record heap =
  heap_arrays :: "MultiField list list"
  heap_maps :: "(string \<times> ref) list list"

definition new_Array :: "heap \<Rightarrow> ref \<times> heap" where
  "new_Array h = (length (heap_arrays h), h\<lparr>heap_arrays := heap_arrays h @ [[]]\<rparr>)"

definition new_Map :: "heap \<Rightarrow> ref \<times> heap" where
  "new_Map h = (length (heap_maps h), h\<lparr>heap_maps := heap_maps h @ [[]]\<rparr>)"

definition Array_push :: "ref \<Rightarrow> MultiField \<Rightarrow> heap \<Rightarrow> heap option" where
  "Array_push r x h =
     (if r < length (heap_arrays h)
      then Some (h\<lparr>heap_arrays := (heap_arrays h)[r := heap_arrays h ! r @ [x]]\<rparr>)
      else None)"

definition HeapMap_get :: "ref \<Rightarrow> string \<Rightarrow> heap \<Rightarrow> ref option option" where
  "HeapMap_get m k h =
     (if m < length (heap_maps h) then Some (map_of (heap_maps h ! m) k) else None)"

definition HeapMap_set :: "ref \<Rightarrow> string \<Rightarrow> ref \<Rightarrow> heap \<Rightarrow> heap option" where
  "HeapMap_set m k v h =
     (if m < length (heap_maps h)
      then Some (h\<lparr>heap_maps := (heap_maps h)[m := AList.update k v (heap_maps h ! m)]\<rparr>)
      else None)"

definition multiFieldsStep_heap ::
  "(string \<rightharpoonup> bool) option \<Rightarrow> ref \<Rightarrow> heap \<Rightarrow> DataViewField \<Rightarrow> heap option" where
  "multiFieldsStep_heap selectedFieldsMap mapRef h fld =
     (let subTypeMulti = getDataViewFieldSubtypeMulti fld;
          parent = map_option multi_parent subTypeMulti
      in case parent of
           None \<Rightarrow> Some h
         | Some p \<Rightarrow>
             if \<not> truthy_string p then Some h
             else
               let multiField = \<lparr>field = fld, isSelected = isSelectedIn selectedFieldsMap (name fld)\<rparr>
               in case HeapMap_get mapRef p h of
                    None \<Rightarrow> None
                  | Some found \<Rightarrow>
                      (let (value, h1) = (case found of Some r \<Rightarrow> (r, h) | None \<Rightarrow> new_Array h)
                       in case Array_push value multiField h1 of
                            None \<Rightarrow> None
                          | Some h2 \<Rightarrow> HeapMap_set mapRef p value h2))"

fun forEach_heap :: "(heap \<Rightarrow> 'a \<Rightarrow> heap option) \<Rightarrow> 'a list \<Rightarrow> heap \<Rightarrow> heap option" where
  "forEach_heap f [] h = Some h"
| "forEach_heap f (x # xs) h = (case f h x of None \<Rightarrow> None | Some h' \<Rightarrow> forEach_heap f xs h')"

definition calculateMultiFields_heap ::
  "DataViewField list option \<Rightarrow> (string \<rightharpoonup> bool) option \<Rightarrow> heap
     \<Rightarrow> (ref option \<times> heap) option" where
  "calculateMultiFields_heap allFields selectedFieldsMap h =
     (case allFields of
        None \<Rightarrow> Some (None, h)
      | Some fs \<Rightarrow>
          (let (mapRef, h0) = new_Map h
           in case forEach_heap (multiFieldsStep_heap selectedFieldsMap mapRef) fs h0 of
                None \<Rightarrow> None
              | Some h' \<Rightarrow> Some (Some mapRef, h')))"


subsection \<open>Selected fields\<close>

record SelectedFieldsResult =
  selectedFields :: "DataViewField list"
  selectedFieldsMap :: "string \<rightharpoonup> bool"

definition INITIAL_SELECTED_FIELDS_RESULT :: SelectedFieldsResult where
  "INITIAL_SELECTED_FIELDS_RESULT = \<lparr>selectedFields = [], selectedFieldsMap = Map.empty\<rparr>"

text \<open>
  Modelled from the spec: \<open>getSelectedFields\<close> (the spec's \<open>resolveSelectedFields\<close>) is
  imported from the module \<open>group_fields\<close>, which is not in the source. For each name of
  the selection, in order, it looks up a matching field in \<open>allFields\<close>, or in the data
  view's schema when \<open>allFields\<close> is absent; a name with no match is dropped; a match is
  appended to the sequence and entered in the mapping in the same pass. An empty or
  undefined selection gives the initial result. The spec gives the search mode no part
  in the resolution.
\<close>

definition findSelectedField ::
  "DataView option \<Rightarrow> DataViewField list option \<Rightarrow> string \<Rightarrow> DataViewField option" where
  "findSelectedField dataView allFields n =
     (case allFields of
        Some fs \<Rightarrow> find (\<lambda>f. name f = n) fs
      | None \<Rightarrow> (case dataView of None \<Rightarrow> None | Some dv \<Rightarrow> getFieldByName dv n))"

definition selectField ::
  "DataView option \<Rightarrow> DataViewField list option \<Rightarrow> SelectedFieldsResult \<Rightarrow> string
     \<Rightarrow> SelectedFieldsResult" where
  "selectField dataView allFields result n =
     (case findSelectedField dataView allFields n of
        None \<Rightarrow> result
      | Some f \<Rightarrow>
          \<lparr>selectedFields = selectedFields result @ [f],
           selectedFieldsMap = (selectedFieldsMap result)(name f \<mapsto> True)\<rparr>)"

definition getSelectedFields ::
  "DataView option \<Rightarrow> string list option \<Rightarrow> DataViewField list option \<Rightarrow> string option
     \<Rightarrow> SelectedFieldsResult" where
  "getSelectedFields dataView workspaceSelectedFieldNames allFields searchMode =
     (case workspaceSelectedFieldNames of
        None \<Rightarrow> INITIAL_SELECTED_FIELDS_RESULT
      | Some names \<Rightarrow>
          if names = [] then INITIAL_SELECTED_FIELDS_RESULT
          else foldl (selectField dataView allFields) INITIAL_SELECTED_FIELDS_RESULT names)"

text \<open>
  One recomputation of both derived structures from the component's inputs: the
  selected fields result, and the multi-field map of \<open>allFields\<close> and the selected fields
  map of that result.
\<close>

definition recompute ::
  "DataView option \<Rightarrow> string list option \<Rightarrow> DataViewField list option \<Rightarrow> string option
     \<Rightarrow> heap \<Rightarrow> (SelectedFieldsResult \<times> ref option \<times> heap) option" where
  "recompute dataView workspaceSelectedFieldNames allFields searchMode h =
     (let result = getSelectedFields dataView workspaceSelectedFieldNames allFields searchMode
      in case calculateMultiFields_heap allFields (Some (selectedFieldsMap result)) h of
           None \<Rightarrow> None
         | Some (r, h') \<Rightarrow> Some (result, r, h'))"


subsection \<open>The effect that sets the multi-field map\<close>

text \<open>
  \<open>useNewFieldsApi\<close> is the negation of the setting \<open>discover:searchFieldsFromSource\<close>.
  Of the state service's creation options the effect reads the optional flag
  \<open>disableMultiFieldsGroupingByParent\<close>.
\<close>

definition useNewFieldsApi :: "bool \<Rightarrow> bool" where
  "useNewFieldsApi searchFieldsFromSource = (\<not> searchFieldsFromSource)"

record CreationOptions =
  disableMultiFieldsGroupingByParent :: "bool option"

text \<open>
  What one run of the effect does: it sets the state to \<open>undefined\<close> without calling
  \<open>calculateMultiFields\<close>, or it calls \<open>calculateMultiFields\<close> and sets the state to what
  the call returned.
\<close>

datatype MultiFieldsUpdate = NotCalculated | Calculated "MultiFieldsMap option"

definition multiFieldsMapEffect ::
  "string option \<Rightarrow> bool \<Rightarrow> CreationOptions \<Rightarrow> DataViewField list option
     \<Rightarrow> SelectedFieldsResult \<Rightarrow> MultiFieldsUpdate" where
  "multiFieldsMapEffect searchMode searchFieldsFromSource creationOptions allFields selectedFieldsState =
     (if searchMode \<noteq> Some ''documents''
         \<or> \<not> useNewFieldsApi searchFieldsFromSource
         \<or> truthy_opt_bool (disableMultiFieldsGroupingByParent creationOptions)
      then NotCalculated
      else Calculated (calculateMultiFields allFields (Some (selectedFieldsMap selectedFieldsState))))"

text \<open>The argument of \<open>setMultiFieldsMap\<close>: the new value of the state.\<close>

fun multiFieldsMapAfter :: "MultiFieldsUpdate \<Rightarrow> MultiFieldsMap option" where
  "multiFieldsMapAfter NotCalculated = None"
| "multiFieldsMapAfter (Calculated r) = r"

section \<open>Specification-side notions\<close>

text \<open>
  A field declares \<open>p\<close> as its multi-field parent when its sub-type is the multi one and
  names the non-empty string \<open>p\<close> (the source tests the parent for truthiness).
\<close>

definition declaresParent :: "DataViewField \<Rightarrow> string \<Rightarrow> bool" where
  "declaresParent f p = (subType f = Some (SubTypeMulti p) \<and> p \<noteq> [])"

text \<open>The bucket of a key: the list stored under it, empty when the key is not in the map.\<close>

definition bucket :: "MultiFieldsMap \<Rightarrow> string \<Rightarrow> MultiField list" where
  "bucket m p = (case Map_get m p of None \<Rightarrow> [] | Some v \<Rightarrow> v)"


text \<open>
  The keys a list of filters contributes: each filter's own key (when \<open>meta.key\<close> is a
  non-empty string), a combined filter's after the keys of the filters it combines.
\<close>

definition ownKey :: "string option \<Rightarrow> string list" where
  "ownKey k = (case k of None \<Rightarrow> [] | Some s \<Rightarrow> if s = [] then [] else [s])"

fun keysOfFilter :: "Filter \<Rightarrow> string list" where
  "keysOfFilter (PlainFilter k) = ownKey k"
| "keysOfFilter (CombinedFilter k ps) = concat (map keysOfFilter ps) @ ownKey k"

definition keysOfFilters :: "Filter list \<Rightarrow> string list" where
  "keysOfFilters filters = concat (map keysOfFilter filters)"

text \<open>
  What a map of the heap holds, read structurally: its keys in order, each with the
  items of the array its entry refers to.
\<close>

definition read_Array :: "heap \<Rightarrow> ref \<Rightarrow> MultiField list option" where
  "read_Array h r = (if r < length (heap_arrays h) then Some (heap_arrays h ! r) else None)"

definition read_Map :: "heap \<Rightarrow> ref \<Rightarrow> MultiFieldsMap option" where
  "read_Map h r =
     (if r < length (heap_maps h)
      then those (map (\<lambda>(k, a). map_option (Pair k) (read_Array h a)) (heap_maps h ! r))
      else None)"

text \<open>\<open>h'\<close> keeps every object of \<open>h\<close> as it is, and may hold more.\<close>

definition heap_extends :: "heap \<Rightarrow> heap \<Rightarrow> bool" where
  "heap_extends h h' =
     (take (length (heap_arrays h)) (heap_arrays h') = heap_arrays h
      \<and> take (length (heap_maps h)) (heap_maps h') = heap_maps h)"

text \<open>
  The map at \<open>r\<close> represents \<open>m\<close>: entry by entry the keys agree and the entry's array,
  allocated at \<open>n\<close> or later, holds the bucket; no two entries share an array.
\<close>

definition entry_holds :: "nat \<Rightarrow> heap \<Rightarrow> string \<times> ref \<Rightarrow> string \<times> MultiField list \<Rightarrow> bool" where
  "entry_holds n h e b =
     (fst e = fst b \<and> n \<le> snd e \<and> snd e < length (heap_arrays h)
      \<and> heap_arrays h ! snd e = snd b)"

definition represents :: "nat \<Rightarrow> heap \<Rightarrow> ref \<Rightarrow> MultiFieldsMap \<Rightarrow> bool" where
  "represents n h r m =
     (r < length (heap_maps h)
      \<and> distinct (map snd (heap_maps h ! r))
      \<and> list_all2 (entry_holds n h) (heap_maps h ! r) m)"

text \<open>
  From \<open>h\<close> to \<open>h'\<close> the arrays below \<open>n\<close> and the maps below \<open>r\<close> are kept, no array
  is lost and no map is added.
\<close>

definition keeps :: "nat \<Rightarrow> nat \<Rightarrow> heap \<Rightarrow> heap \<Rightarrow> bool" where
  "keeps n r h h' =
     (take n (heap_arrays h') = take n (heap_arrays h)
      \<and> length (heap_arrays h) \<le> length (heap_arrays h')
      \<and> take r (heap_maps h') = take r (heap_maps h)
      \<and> length (heap_maps h') = length (heap_maps h))"

text \<open>The store after the array at \<open>r\<close> has been extended by \<open>ks\<close>.\<close>

definition extend_at :: "store \<Rightarrow> ref \<Rightarrow> string list \<Rightarrow> store" where
  "extend_at s r ks = s\<lparr>arrays := (arrays s)(r := arrays s r @ ks)\<rparr>"

text \<open>The names of a selection; an undefined selection has none.\<close>

definition selection :: "string list option \<Rightarrow> string list" where
  "selection sel = (case sel of None \<Rightarrow> [] | Some ns \<Rightarrow> ns)"

subsection \<open>Example inputs\<close>

definition fieldA :: DataViewField where
  "fieldA = \<lparr>name = ''A'', ftype = ''text'', subType = None\<rparr>"

definition fieldB :: DataViewField where
  "fieldB = \<lparr>name = ''B'', ftype = ''keyword'', subType = Some (SubTypeMulti ''A'')\<rparr>"

definition fieldC :: DataViewField where
  "fieldC = \<lparr>name = ''C'', ftype = ''keyword'', subType = Some (SubTypeMulti ''A'')\<rparr>"

definition fieldD :: DataViewField where
  "fieldD = \<lparr>name = ''D'', ftype = ''number'', subType = None\<rparr>"

definition fieldE :: DataViewField where
  "fieldE = \<lparr>name = ''E'', ftype = ''keyword'', subType = Some (SubTypeMulti ''B'')\<rparr>"


definition emptyHeap :: heap where
  "emptyHeap = \<lparr>heap_arrays = [], heap_maps = []\<rparr>"

definition bucketA :: "MultiField list" where
  "bucketA = [\<lparr>field = fieldB, isSelected = True\<rparr>, \<lparr>field = fieldC, isSelected = False\<rparr>]"

definition heapAfterOne :: heap where
  "heapAfterOne = \<lparr>heap_arrays = [bucketA], heap_maps = [[(''A'', 0)]]\<rparr>"

definition heapAfterTwo :: heap where
  "heapAfterTwo =
     \<lparr>heap_arrays = [bucketA, bucketA], heap_maps = [[(''A'', 0)], [(''A'', 1)]]\<rparr>"

definition hostsView :: DataView where
  "hostsView = \<lparr>dv_id = Some ''metrics'', dv_fields = [fieldA, fieldB]\<rparr>"

definition emptyStore :: store where
  "emptyStore = \<lparr>arrays = (\<lambda>r. []), next_ref = 0\<rparr>"

definition exampleFilters :: "Filter list" where
  "exampleFilters =
     [PlainFilter (Some ''host.name''),
      CombinedFilter (Some ''combo'')
        [PlainFilter (Some ''a''), PlainFilter None, PlainFilter (Some ''b'')],
      PlainFilter (Some []),
      CombinedFilter None [PlainFilter (Some ''c'')]]"

section \<open>Lemmas\<close>

subsection \<open>The keys of filters and the store\<close>

lemma keysOfFilters_Nil: "keysOfFilters [] = []"
  by (simp add: keysOfFilters_def)

lemma keysOfFilters_Cons: "keysOfFilters (flt # rest) = keysOfFilter flt @ keysOfFilters rest"
  by (simp add: keysOfFilters_def)

lemma keysOfFilter_unfold:
  "keysOfFilter flt =
     (if isCombinedFilter flt then keysOfFilters (meta_params flt) else []) @ ownKey (meta_key flt)"
  by (cases flt) (simp_all add: keysOfFilters_def)

lemma extend_at_Nil: "extend_at s r [] = s"
  by (simp add: extend_at_def)

lemma extend_at_append: "extend_at (extend_at s r ks) r ks' = extend_at s r (ks @ ks')"
  by (simp add: extend_at_def)

lemma push_ownKey:
  "(case k of None \<Rightarrow> s | Some x \<Rightarrow> if truthy_string x then array_push s r x else s)
     = extend_at s r (ownKey k)"
  by (cases k) (simp_all add: ownKey_def truthy_string_def array_push_def extend_at_def)

lemma retrieve_extend:
  "retrieveFieldsFromFilter filters r s = (r, extend_at s r (keysOfFilters filters))"
proof (induction filters r s rule: retrieveFieldsFromFilter.induct)
  case (1 fields_ref s)
  show ?case by (simp add: keysOfFilters_Nil extend_at_Nil)
next
  case (2 flt rest fields_ref s)
  define s1 where "s1 = (if isCombinedFilter flt
                then snd (retrieveFieldsFromFilter (meta_params flt) fields_ref s)
                else s)"
  define s2 where "s2 = (case meta_key flt of
                  None \<Rightarrow> s1
                | Some k \<Rightarrow> if truthy_string k then array_push s1 fields_ref k else s1)"
  have e1: "s1 = extend_at s fields_ref (if isCombinedFilter flt then keysOfFilters (meta_params flt) else [])"
    using "2.IH"(1) by (simp add: s1_def extend_at_Nil)
  have e2: "s2 = extend_at s fields_ref (keysOfFilter flt)"
    unfolding s2_def push_ownKey e1 extend_at_append keysOfFilter_unfold ..
  have "retrieveFieldsFromFilter rest fields_ref s2 = (fields_ref, extend_at s2 fields_ref (keysOfFilters rest))"
    using "2.IH"(2)[OF s1_def s2_def] .
  then show ?case
    by (simp add: Let_def e2 extend_at_append keysOfFilters_Cons flip: s1_def s2_def)
qed

subsection \<open>The selection pass\<close>

lemma findSelectedField_name: "findSelectedField dv af n = Some f \<Longrightarrow> name f = n"
  by (auto simp: findSelectedField_def getFieldByName_def find_Some_iff split: option.splits)

lemma findSelectedField_allFields:
  "findSelectedField dv (Some fs) n \<noteq> None \<longleftrightarrow> n \<in> name ` set fs"
  by (auto simp: findSelectedField_def find_None_iff)

lemma map_filter_Cons_None: "g x = None \<Longrightarrow> List.map_filter g (x # xs) = List.map_filter g xs"
  by (simp add: List.map_filter_def)

lemma map_filter_Cons_Some: "g x = Some y \<Longrightarrow> List.map_filter g (x # xs) = y # List.map_filter g xs"
  by (simp add: List.map_filter_def)

lemma map_filter_member: "y \<in> set (List.map_filter g xs) \<Longrightarrow> \<exists>x. g x = Some y"
  by (auto simp: List.map_filter_def)

lemma map_filter_Nil: "List.map_filter g [] = []"
  by (simp add: List.map_filter_def)

lemma selectField_None: "findSelectedField dv af n = None \<Longrightarrow> selectField dv af r n = r"
  by (simp add: selectField_def)

lemma selectField_Some:
  "findSelectedField dv af n = Some f \<Longrightarrow>
   selectField dv af r n =
     \<lparr>selectedFields = selectedFields r @ [f],
      selectedFieldsMap = (selectedFieldsMap r)(name f \<mapsto> True)\<rparr>"
  by (simp add: selectField_def)

lemma selectedFields_foldl:
  "selectedFields (foldl (selectField dv af) r0 ns)
     = selectedFields r0 @ List.map_filter (findSelectedField dv af) ns"
proof (induction ns arbitrary: r0)
  case Nil
  show ?case by (simp add: map_filter_Nil)
next
  case (Cons n ns)
  show ?case
  proof (cases "findSelectedField dv af n")
    case None
    then show ?thesis by (simp add: Cons.IH selectField_None map_filter_Cons_None)
  next
    case (Some f)
    then show ?thesis by (simp add: Cons.IH selectField_Some map_filter_Cons_Some)
  qed
qed

lemma selectedFieldsMap_foldl:
  "selectedFieldsMap (foldl (selectField dv af) r0 ns) k
     = (if k \<in> name ` set (List.map_filter (findSelectedField dv af) ns) then Some True
        else selectedFieldsMap r0 k)"
proof (induction ns arbitrary: r0)
  case Nil
  show ?case by (simp add: map_filter_Nil)
next
  case (Cons n ns)
  show ?case
  proof (cases "findSelectedField dv af n")
    case None
    then show ?thesis by (simp add: Cons.IH selectField_None map_filter_Cons_None)
  next
    case (Some f)
    then show ?thesis by (simp add: Cons.IH selectField_Some map_filter_Cons_Some)
  qed
qed

lemma names_map_filter:
  "map name (List.map_filter (findSelectedField dv af) ns)
     = filter (\<lambda>n. findSelectedField dv af n \<noteq> None) ns"
proof (induction ns)
  case Nil
  show ?case by (simp add: map_filter_Nil)
next
  case (Cons n ns)
  show ?case
  proof (cases "findSelectedField dv af n")
    case None
    then show ?thesis by (simp add: Cons.IH map_filter_Cons_None)
  next
    case (Some f)
    then show ?thesis
      by (simp add: Cons.IH map_filter_Cons_Some findSelectedField_name)
  qed
qed

lemma getSelectedFields_fields:
  "selectedFields (getSelectedFields dv sel af mode)
     = List.map_filter (findSelectedField dv af) (selection sel)"
  by (cases sel)
     (simp_all add: getSelectedFields_def selection_def INITIAL_SELECTED_FIELDS_RESULT_def
        map_filter_Nil selectedFields_foldl)

lemma getSelectedFields_map:
  "selectedFieldsMap (getSelectedFields dv sel af mode) k
     = (if k \<in> name ` set (selectedFields (getSelectedFields dv sel af mode)) then Some True
        else None)"
  unfolding getSelectedFields_fields
  by (cases sel)
     (simp_all add: getSelectedFields_def selection_def INITIAL_SELECTED_FIELDS_RESULT_def
        map_filter_Nil selectedFieldsMap_foldl)

subsection \<open>The grouping fold\<close>


lemma multiFieldsStep_skip:
  "\<not> (\<exists>p. declaresParent f p) \<Longrightarrow> multiFieldsStep sel m f = m"
  by (auto simp: multiFieldsStep_def declaresParent_def getDataViewFieldSubtypeMulti_def
      truthy_string_def Let_def split: option.splits IFieldSubType.splits)

lemma multiFieldsStep_push:
  "declaresParent f p \<Longrightarrow>
   multiFieldsStep sel m f =
     Map_set m p (bucket m p @ [\<lparr>field = f, isSelected = isSelectedIn sel (name f)\<rparr>])"
  by (auto simp: multiFieldsStep_def declaresParent_def getDataViewFieldSubtypeMulti_def
      truthy_string_def Let_def bucket_def split: option.splits IFieldSubType.splits)

lemma declaresParent_unique: "declaresParent f p \<Longrightarrow> declaresParent f q \<Longrightarrow> p = q"
  by (simp add: declaresParent_def)




lemma keys_step:
  "fst ` set (multiFieldsStep sel m f) = fst ` set m \<union> {p. declaresParent f p}"
proof (cases "\<exists>q. declaresParent f q")
  case False
  then show ?thesis by (auto simp add: multiFieldsStep_skip)
next
  case True
  then obtain q where q: "declaresParent f q" by blast
  then have "{p. declaresParent f p} = {q}" using declaresParent_unique by blast
  then show ?thesis
    by (simp add: multiFieldsStep_push[OF q] Map_set_def dom_update)
qed

lemma keys_foldl:
  "fst ` set (foldl (multiFieldsStep sel) m fs) = fst ` set m \<union> {p. \<exists>f\<in>set fs. declaresParent f p}"
  by (induction fs arbitrary: m) (auto simp: keys_step)








subsection \<open>Mapping a builder over the values\<close>

lemma array_map_missing:
  "array_map (\<lambda>v. buildPhraseFilter None v dv) vals = (if vals = [] then Inr [] else Inl TypeError)"
  by (cases vals) (simp_all add: buildPhraseFilter_def)

lemma array_map_present:
  "array_map (\<lambda>v. buildPhraseFilter (Some f) v dv) vals = Inr (map (\<lambda>v. BuiltPhrase f v dv) vals)"
  by (induction vals) (simp_all add: buildPhraseFilter_def)

subsection \<open>The grouping in the heap\<close>

lemma update_absent: "k \<notin> fst ` set al \<Longrightarrow> AList.update k v al = al @ [(k, v)]"
  by (induction al) auto

lemma keeps_refl: "keeps n r h h"
  by (simp add: keeps_def)

lemma keeps_trans: "keeps n r h h1 \<Longrightarrow> keeps n r h1 h2 \<Longrightarrow> keeps n r h h2"
  by (simp add: keeps_def)

lemma entries_lookup:
  "list_all2 (entry_holds n h) es m \<Longrightarrow>
     map_of m p = map_option (\<lambda>a. heap_arrays h ! a) (map_of es p)"
  by (induction es m rule: list_all2_induct) (auto simp: entry_holds_def)

lemma entries_in_range:
  "list_all2 (entry_holds n h) es m \<Longrightarrow> e \<in> set es \<Longrightarrow>
     n \<le> snd e \<and> snd e < length (heap_arrays h)"
  by (induction es m rule: list_all2_induct) (auto simp: entry_holds_def)

lemma entries_kept:
  assumes "list_all2 (entry_holds n h) es m"
    and "length (heap_arrays h) \<le> length (heap_arrays h')"
    and "\<And>e. e \<in> set es \<Longrightarrow> heap_arrays h' ! snd e = heap_arrays h ! snd e"
  shows "list_all2 (entry_holds n h') es m"
  using assms(1)
proof (rule list.rel_mono_strong)
  fix e b assume "e \<in> set es" "entry_holds n h e b"
  then show "entry_holds n h' e b"
    using assms(2) assms(3)[of e] by (simp add: entry_holds_def)
qed

lemma entries_push:
  assumes "list_all2 (entry_holds n h) es m"
    and "distinct (map snd es)"
    and "map_of es p = Some a"
    and "heap_arrays h' = (heap_arrays h)[a := heap_arrays h ! a @ [x]]"
  shows "list_all2 (entry_holds n h') es (AList.update p (heap_arrays h ! a @ [x]) m)"
  using assms(1-3)
proof (induction es m rule: list_all2_induct)
  case Nil
  then show ?case by simp
next
  case (Cons e es b m)
  have len: "length (heap_arrays h) \<le> length (heap_arrays h')"
    by (simp add: assms(4))
  show ?case
  proof (cases "fst e = p")
    case True
    with Cons.prems have a: "snd e = a" by (cases e) simp
    have notin: "a \<notin> snd ` set es" using Cons.prems(1) a by auto
    have tail: "list_all2 (entry_holds n h') es m"
    proof (rule entries_kept[OF Cons.hyps(2) len])
      fix e' assume "e' \<in> set es"
      with notin have "snd e' \<noteq> a" by auto
      then show "heap_arrays h' ! snd e' = heap_arrays h ! snd e'"
        by (simp add: assms(4))
    qed
    have "entry_holds n h' e (p, heap_arrays h ! a @ [x])"
      using Cons.hyps(1) True a by (simp add: entry_holds_def assms(4))
    moreover have "fst b = p" using Cons.hyps(1) True by (simp add: entry_holds_def)
    ultimately show ?thesis using tail by (cases b) simp
  next
    case False
    with Cons.prems have look: "map_of es p = Some a" by (cases e) simp
    then have "a \<in> snd ` set es" by (metis map_of_SomeD snd_conv image_eqI)
    with Cons.prems(1) have ne: "snd e \<noteq> a" by auto
    have "entry_holds n h' e b"
      using Cons.hyps(1) ne by (simp add: entry_holds_def assms(4))
    moreover have "fst b \<noteq> p" using Cons.hyps(1) False by (simp add: entry_holds_def)
    moreover have "list_all2 (entry_holds n h') es (AList.update p (heap_arrays h ! a @ [x]) m)"
      using Cons.IH Cons.prems(1) look by simp
    ultimately show ?thesis by (cases b) simp
  qed
qed

lemma step_heap_skip:
  "\<not> (\<exists>p. declaresParent f p) \<Longrightarrow> multiFieldsStep_heap sel r h f = Some h"
  by (auto simp: multiFieldsStep_heap_def declaresParent_def getDataViewFieldSubtypeMulti_def
      truthy_string_def Let_def split: option.splits IFieldSubType.splits)

lemma step_heap_push:
  "declaresParent f p \<Longrightarrow>
   multiFieldsStep_heap sel r h f =
     (case HeapMap_get r p h of
        None \<Rightarrow> None
      | Some found \<Rightarrow>
          (let (value, h1) = (case found of Some a \<Rightarrow> (a, h) | None \<Rightarrow> new_Array h)
           in case Array_push value \<lparr>field = f, isSelected = isSelectedIn sel (name f)\<rparr> h1 of
                None \<Rightarrow> None
              | Some h2 \<Rightarrow> HeapMap_set r p value h2))"
  by (auto simp: multiFieldsStep_heap_def declaresParent_def getDataViewFieldSubtypeMulti_def
      truthy_string_def Let_def split: option.splits IFieldSubType.splits prod.splits)

lemma step_represents:
  assumes rep: "represents n h r m" and n: "n \<le> length (heap_arrays h)"
  shows "\<exists>h'. multiFieldsStep_heap sel r h f = Some h'
           \<and> represents n h' r (multiFieldsStep sel m f) \<and> keeps n r h h'"
proof (cases "\<exists>p. declaresParent f p")
  case False
  then show ?thesis
    using rep by (simp add: step_heap_skip multiFieldsStep_skip keeps_refl)
next
  case True
  then obtain p where p: "declaresParent f p" by blast
  let ?mf = "\<lparr>field = f, isSelected = isSelectedIn sel (name f)\<rparr>"
  let ?es = "heap_maps h ! r"
  from rep have r: "r < length (heap_maps h)"
    and dist: "distinct (map snd ?es)"
    and all: "list_all2 (entry_holds n h) ?es m"
    by (simp_all add: represents_def)
  have get: "HeapMap_get r p h = Some (map_of ?es p)"
    using r by (simp add: HeapMap_get_def)
  show ?thesis
  proof (cases "map_of ?es p")
    case (Some a)
    then have "(p, a) \<in> set ?es" by (rule map_of_SomeD)
    from entries_in_range[OF all this] have a: "a < length (heap_arrays h)" by simp
    define h2 where "h2 = h\<lparr>heap_arrays := (heap_arrays h)[a := heap_arrays h ! a @ [?mf]]\<rparr>"
    have push: "Array_push a ?mf h = Some h2"
      using a by (simp add: Array_push_def h2_def)
    have same: "AList.update p a ?es = ?es"
      using Some by (rule update_triv)
    have set: "HeapMap_set r p a h2 = Some h2"
      using r same by (simp add: HeapMap_set_def h2_def)
    have run: "multiFieldsStep_heap sel r h f = Some h2"
      by (simp add: step_heap_push[OF p] get Some push set)
    have b: "bucket m p = heap_arrays h ! a"
      using entries_lookup[OF all, of p] Some by (simp add: bucket_def Map_get_def)
    have pure: "multiFieldsStep sel m f = AList.update p (heap_arrays h ! a @ [?mf]) m"
      by (simp add: multiFieldsStep_push[OF p] b Map_set_def)
    have "list_all2 (entry_holds n h2) ?es (AList.update p (heap_arrays h ! a @ [?mf]) m)"
      by (rule entries_push[OF all dist Some]) (simp add: h2_def)
    then have rep2: "represents n h2 r (multiFieldsStep sel m f)"
      using r dist by (simp add: represents_def pure h2_def)
    have "n \<le> a" using entries_in_range[OF all \<open>(p, a) \<in> set ?es\<close>] by simp
    then have "keeps n r h h2"
      by (simp add: keeps_def h2_def)
    with run rep2 show ?thesis by blast
  next
    case None
    define a where "a = length (heap_arrays h)"
    define h1 where "h1 = h\<lparr>heap_arrays := heap_arrays h @ [[]]\<rparr>"
    define h2 where "h2 = h\<lparr>heap_arrays := heap_arrays h @ [[?mf]]\<rparr>"
    define h3 where "h3 = h2\<lparr>heap_maps := (heap_maps h)[r := ?es @ [(p, a)]]\<rparr>"
    have new: "new_Array h = (a, h1)"
      by (simp add: new_Array_def a_def h1_def)
    have push: "Array_push a ?mf h1 = Some h2"
      by (simp add: Array_push_def a_def h1_def h2_def)
    have absent: "p \<notin> fst ` set ?es"
      using None by (simp add: map_of_eq_None_iff)
    have set: "HeapMap_set r p a h2 = Some h3"
      using r by (simp add: HeapMap_set_def h2_def h3_def update_absent[OF absent])
    have run: "multiFieldsStep_heap sel r h f = Some h3"
      by (simp add: step_heap_push[OF p] get None new push set)
    have mnone: "map_of m p = None"
      using entries_lookup[OF all, of p] None by simp
    then have b: "bucket m p = []" by (simp add: bucket_def Map_get_def)
    have "p \<notin> fst ` set m" using mnone by (simp add: map_of_eq_None_iff)
    then have pure: "multiFieldsStep sel m f = m @ [(p, [?mf])]"
      by (simp add: multiFieldsStep_push[OF p] b Map_set_def update_absent)
    have old: "list_all2 (entry_holds n h3) ?es m"
    proof (rule entries_kept[OF all])
      show "length (heap_arrays h) \<le> length (heap_arrays h3)"
        by (simp add: h3_def h2_def)
    next
      fix e assume "e \<in> set ?es"
      from entries_in_range[OF all this] have "snd e < length (heap_arrays h)" by simp
      then show "heap_arrays h3 ! snd e = heap_arrays h ! snd e"
        by (simp add: h3_def h2_def nth_append)
    qed
    have newe: "entry_holds n h3 (p, a) (p, [?mf])"
      using n by (simp add: entry_holds_def h3_def h2_def a_def)
    have all3: "list_all2 (entry_holds n h3) (?es @ [(p, a)]) (m @ [(p, [?mf])])"
      using old newe by (simp add: list_all2_appendI)
    have fresh: "a \<notin> snd ` set ?es"
    proof
      assume "a \<in> snd ` set ?es"
      then obtain e where "e \<in> set ?es" "snd e = a" by auto
      with entries_in_range[OF all this(1)] show False by (simp add: a_def)
    qed
    have rep3: "represents n h3 r (multiFieldsStep sel m f)"
      using r dist fresh all3 by (simp add: represents_def pure h3_def h2_def)
    have "keeps n r h h3"
      using n by (simp add: keeps_def h3_def h2_def)
    with run rep3 show ?thesis by blast
  qed
qed

lemma forEach_represents:
  assumes "represents n h r m" and "n \<le> length (heap_arrays h)"
  shows "\<exists>h'. forEach_heap (multiFieldsStep_heap sel r) fs h = Some h'
           \<and> represents n h' r (foldl (multiFieldsStep sel) m fs) \<and> keeps n r h h'"
  using assms
proof (induction fs arbitrary: h m)
  case Nil
  then show ?case by (simp add: keeps_refl)
next
  case (Cons f fs)
  from step_represents[OF Cons.prems, of sel f]
  obtain h1 where s: "multiFieldsStep_heap sel r h f = Some h1"
    and r1: "represents n h1 r (multiFieldsStep sel m f)" and k1: "keeps n r h h1"
    by blast
  from k1 Cons.prems(2) have "n \<le> length (heap_arrays h1)" by (simp add: keeps_def)
  from Cons.IH[OF r1 this]
  obtain h' where f: "forEach_heap (multiFieldsStep_heap sel r) fs h1 = Some h'"
    and r': "represents n h' r (foldl (multiFieldsStep sel) (multiFieldsStep sel m f) fs)"
    and k': "keeps n r h1 h'"
    by blast
  from s f r' keeps_trans[OF k1 k'] show ?case by simp
qed

lemma represents_read: "represents n h r m \<Longrightarrow> read_Map h r = Some m"
proof -
  assume rep: "represents n h r m"
  have "list_all2 (entry_holds n h) es m' \<Longrightarrow>
      those (map (\<lambda>(k, a). map_option (Pair k) (read_Array h a)) es) = Some m'" for es m'
    by (induction es m' rule: list_all2_induct)
       (auto simp: entry_holds_def read_Array_def split: prod.splits)
  with rep show ?thesis by (simp add: represents_def read_Map_def)
qed

lemma represents_extends:
  assumes "represents n h r m" and "heap_extends h h'"
  shows "represents n h' r m"
proof -
  from assms(2) have a: "take (length (heap_arrays h)) (heap_arrays h') = heap_arrays h"
    and b: "take (length (heap_maps h)) (heap_maps h') = heap_maps h"
    by (simp_all add: heap_extends_def)
  have la: "length (heap_arrays h) \<le> length (heap_arrays h')"
    by (metis a length_take min.cobounded2 min.commute)
  have lb: "length (heap_maps h) \<le> length (heap_maps h')"
    by (metis b length_take min.cobounded2 min.commute)
  have na: "i < length (heap_arrays h) \<Longrightarrow> heap_arrays h' ! i = heap_arrays h ! i" for i
    by (metis a nth_take)
  have nb: "i < length (heap_maps h) \<Longrightarrow> heap_maps h' ! i = heap_maps h ! i" for i
    by (metis b nth_take)
  from assms(1) have r: "r < length (heap_maps h)"
    and dist: "distinct (map snd (heap_maps h ! r))"
    and all: "list_all2 (entry_holds n h) (heap_maps h ! r) m"
    by (simp_all add: represents_def)
  have "list_all2 (entry_holds n h') (heap_maps h ! r) m"
  proof (rule entries_kept[OF all la])
    fix e assume "e \<in> set (heap_maps h ! r)"
    from entries_in_range[OF all this] show "heap_arrays h' ! snd e = heap_arrays h ! snd e"
      by (simp add: na)
  qed
  with r dist lb show ?thesis by (simp add: represents_def nb)
qed

lemma calculate_heap:
  "\<exists>h'. calculateMultiFields_heap (Some fs) sel h = Some (Some (length (heap_maps h)), h')
        \<and> represents (length (heap_arrays h)) h' (length (heap_maps h))
             (foldl (multiFieldsStep sel) [] fs)
        \<and> heap_extends h h'"
proof -
  define h0 where "h0 = h\<lparr>heap_maps := heap_maps h @ [[]]\<rparr>"
  let ?r = "length (heap_maps h)" and ?n = "length (heap_arrays h)"
  have new: "new_Map h = (?r, h0)" by (simp add: new_Map_def h0_def)
  have rep0: "represents ?n h0 ?r []" by (simp add: represents_def h0_def)
  have "?n \<le> length (heap_arrays h0)" by (simp add: h0_def)
  from forEach_represents[OF rep0 this, of sel fs]
  obtain h' where f: "forEach_heap (multiFieldsStep_heap sel ?r) fs h0 = Some h'"
    and r': "represents ?n h' ?r (foldl (multiFieldsStep sel) [] fs)"
    and k: "keeps ?n ?r h0 h'"
    by blast
  have run: "calculateMultiFields_heap (Some fs) sel h = Some (Some ?r, h')"
    by (simp add: calculateMultiFields_heap_def new f)
  from k have "heap_extends h h'"
    by (simp add: keeps_def heap_extends_def h0_def)
  with run r' show ?thesis by blast
qed

lemma calculate_heap_absent: "calculateMultiFields_heap None sel h = Some (None, h)"
  by (simp add: calculateMultiFields_heap_def)

lemma calculate_heap_twice:
  "\<exists>r1 h1 r2 h2.
      calculateMultiFields_heap (Some fs) sel h = Some (Some r1, h1)
    \<and> calculateMultiFields_heap (Some fs) sel h1 = Some (Some r2, h2)
    \<and> r1 \<noteq> r2
    \<and> read_Map h1 r1 = calculateMultiFields (Some fs) sel
    \<and> read_Map h2 r2 = read_Map h1 r1
    \<and> read_Map h2 r1 = read_Map h1 r1
    \<and> heap_extends h h1 \<and> heap_extends h1 h2"
proof -
  let ?m = "foldl (multiFieldsStep sel) [] fs"
  from calculate_heap[of fs sel h]
  obtain h1 where run1: "calculateMultiFields_heap (Some fs) sel h = Some (Some (length (heap_maps h)), h1)"
    and rep1: "represents (length (heap_arrays h)) h1 (length (heap_maps h)) ?m"
    and ext1: "heap_extends h h1"
    by blast
  from calculate_heap[of fs sel h1]
  obtain h2 where run2: "calculateMultiFields_heap (Some fs) sel h1 = Some (Some (length (heap_maps h1)), h2)"
    and rep2: "represents (length (heap_arrays h1)) h2 (length (heap_maps h1)) ?m"
    and ext2: "heap_extends h1 h2"
    by blast
  from rep1 have "length (heap_maps h) < length (heap_maps h1)"
    by (simp add: represents_def)
  then have ne: "length (heap_maps h) \<noteq> length (heap_maps h1)" by simp
  have pure: "calculateMultiFields (Some fs) sel = Some ?m"
    by (simp add: calculateMultiFields_def)
  have read1: "read_Map h1 (length (heap_maps h)) = Some ?m"
    using rep1 by (rule represents_read)
  have read2: "read_Map h2 (length (heap_maps h1)) = Some ?m"
    using rep2 by (rule represents_read)
  have read3: "read_Map h2 (length (heap_maps h)) = Some ?m"
    using represents_extends[OF rep1 ext2] by (rule represents_read)
  from run1 run2 ne read1 read2 read3 ext1 ext2 pure show ?thesis by simp
qed

section \<open>The properties\<close>

text \<open>
  C1 (as amended). The effect leaves \<open>calculateMultiFields\<close> uncalled, and sets the
  multi-field map to \<open>undefined\<close>, exactly when the search mode is not \<open>documents\<close>, or
  the setting \<open>discover:searchFieldsFromSource\<close> is on (the new fields API is off), or
  the creation options disable multi-field grouping by parent. In every other case it
  calls \<open>calculateMultiFields\<close> on \<open>allFields\<close> and the selected fields map of the state
  and sets the map to what the call returns.
\<close>

theorem multiFieldsMapEffect_skips:
  "(multiFieldsMapEffect mode fromSource opts af st = NotCalculated
      \<longleftrightarrow> mode \<noteq> Some ''documents'' \<or> fromSource
          \<or> disableMultiFieldsGroupingByParent opts = Some True)
   \<and> (multiFieldsMapEffect mode fromSource opts af st \<noteq> NotCalculated \<longrightarrow>
        multiFieldsMapEffect mode fromSource opts af st
          = Calculated (calculateMultiFields af (Some (selectedFieldsMap st))))
   \<and> multiFieldsMapAfter (multiFieldsMapEffect mode fromSource opts af st)
        = (if mode \<noteq> Some ''documents'' \<or> fromSource
              \<or> disableMultiFieldsGroupingByParent opts = Some True
           then None
           else calculateMultiFields af (Some (selectedFieldsMap st)))"
proof -
  have t: "truthy_opt_bool (disableMultiFieldsGroupingByParent opts)
      \<longleftrightarrow> disableMultiFieldsGroupingByParent opts = Some True"
    by (cases "disableMultiFieldsGroupingByParent opts") (simp_all add: truthy_opt_bool_def)
  show ?thesis
    by (simp add: multiFieldsMapEffect_def useNewFieldsApi_def t)
qed

theorem multiFieldsMapEffect_skips_witness:
  "multiFieldsMapEffect (Some ''documents'') True \<lparr>disableMultiFieldsGroupingByParent = None\<rparr>
       (Some [fieldB]) INITIAL_SELECTED_FIELDS_RESULT = NotCalculated
   \<and> multiFieldsMapEffect (Some ''text-based'') False \<lparr>disableMultiFieldsGroupingByParent = None\<rparr>
       (Some [fieldB]) INITIAL_SELECTED_FIELDS_RESULT = NotCalculated
   \<and> multiFieldsMapEffect (Some ''documents'') False \<lparr>disableMultiFieldsGroupingByParent = Some True\<rparr>
       (Some [fieldB]) INITIAL_SELECTED_FIELDS_RESULT = NotCalculated
   \<and> multiFieldsMapEffect (Some ''documents'') False \<lparr>disableMultiFieldsGroupingByParent = Some False\<rparr>
       (Some [fieldB]) INITIAL_SELECTED_FIELDS_RESULT
     = Calculated (Some [(''A'', [\<lparr>field = fieldB, isSelected = False\<rparr>])])"
proof -
  have calc: "calculateMultiFields (Some [fieldB])
       (Some (selectedFieldsMap INITIAL_SELECTED_FIELDS_RESULT))
     = Some [(''A'', [\<lparr>field = fieldB, isSelected = False\<rparr>])]"
    by (simp add: calculateMultiFields_def multiFieldsStep_def getDataViewFieldSubtypeMulti_def
        fieldB_def truthy_string_def isSelectedIn_def getProperty_def Object_prototype_members_def Map_get_def Map_set_def
        INITIAL_SELECTED_FIELDS_RESULT_def)
  note a = multiFieldsMapEffect_skips[where mode = "Some ''documents''" and fromSource = True
      and opts = "\<lparr>disableMultiFieldsGroupingByParent = None\<rparr>" and af = "Some [fieldB]"
      and st = INITIAL_SELECTED_FIELDS_RESULT]
  note b = multiFieldsMapEffect_skips[where mode = "Some ''text-based''" and fromSource = False
      and opts = "\<lparr>disableMultiFieldsGroupingByParent = None\<rparr>" and af = "Some [fieldB]"
      and st = INITIAL_SELECTED_FIELDS_RESULT]
  note c = multiFieldsMapEffect_skips[where mode = "Some ''documents''" and fromSource = False
      and opts = "\<lparr>disableMultiFieldsGroupingByParent = Some True\<rparr>" and af = "Some [fieldB]"
      and st = INITIAL_SELECTED_FIELDS_RESULT]
  note d = multiFieldsMapEffect_skips[where mode = "Some ''documents''" and fromSource = False
      and opts = "\<lparr>disableMultiFieldsGroupingByParent = Some False\<rparr>" and af = "Some [fieldB]"
      and st = INITIAL_SELECTED_FIELDS_RESULT]
  from a have 1: "multiFieldsMapEffect (Some ''documents'') True
       \<lparr>disableMultiFieldsGroupingByParent = None\<rparr> (Some [fieldB])
       INITIAL_SELECTED_FIELDS_RESULT = NotCalculated"
    by simp
  from b have 2: "multiFieldsMapEffect (Some ''text-based'') False
       \<lparr>disableMultiFieldsGroupingByParent = None\<rparr> (Some [fieldB])
       INITIAL_SELECTED_FIELDS_RESULT = NotCalculated"
    by simp
  from c have 3: "multiFieldsMapEffect (Some ''documents'') False
       \<lparr>disableMultiFieldsGroupingByParent = Some True\<rparr> (Some [fieldB])
       INITIAL_SELECTED_FIELDS_RESULT = NotCalculated"
    by simp
  from d have 4: "multiFieldsMapEffect (Some ''documents'') False
       \<lparr>disableMultiFieldsGroupingByParent = Some False\<rparr> (Some [fieldB])
       INITIAL_SELECTED_FIELDS_RESULT
     = Calculated (Some [(''A'', [\<lparr>field = fieldB, isSelected = False\<rparr>])])"
    unfolding calc by simp
  from 1 2 3 4 show ?thesis by simp
qed

text \<open>
  The claim as first stated names two conditions only. With the search mode
  \<open>documents\<close>, grouping not disabled and \<open>discover:searchFieldsFromSource\<close> on, neither
  holds, yet the effect does not calculate: the map is \<open>undefined\<close> where
  \<open>calculateMultiFields\<close> would have returned a map with the bucket of \<open>A\<close>.
\<close>

theorem multiFieldsMapEffect_two_conditions_counterexample:
  "multiFieldsMapEffect (Some ''documents'') True \<lparr>disableMultiFieldsGroupingByParent = Some False\<rparr>
       (Some [fieldB]) INITIAL_SELECTED_FIELDS_RESULT = NotCalculated
   \<and> \<not> (Some ''documents'' \<noteq> Some ''documents''
          \<or> disableMultiFieldsGroupingByParent \<lparr>disableMultiFieldsGroupingByParent = Some False\<rparr>
              = Some True)
   \<and> multiFieldsMapAfter (multiFieldsMapEffect (Some ''documents'') True
         \<lparr>disableMultiFieldsGroupingByParent = Some False\<rparr> (Some [fieldB])
         INITIAL_SELECTED_FIELDS_RESULT)
       \<noteq> calculateMultiFields (Some [fieldB])
           (Some (selectedFieldsMap INITIAL_SELECTED_FIELDS_RESULT))"
  by (simp add: multiFieldsMapEffect_def useNewFieldsApi_def calculateMultiFields_def)




text \<open>
  C3 (as amended). With a data view given, neither builder checks the result of the
  lookup by name. When the data view has no field of that name, \<open>buildExistsHostsFilter\<close>
  fails with the null dereference, and \<open>buildCombinedHostsFilter\<close> fails with it whenever
  the list of values is not empty. With no values the callback of \<open>values.map\<close> never
  runs, the missing field is never read, and \<open>buildCombinedHostsFilter\<close> returns the
  \<open>OR\<close> combination of no filters. When the data view has the field, both builders
  return what the library builds from it.
\<close>

theorem hosts_filters_missing_field:
  "(getFieldByName dv fieldName = None \<longrightarrow>
      buildExistsHostsFilter fieldName (Some dv) = Inl TypeError
      \<and> (vals \<noteq> [] \<longrightarrow> buildCombinedHostsFilter fieldName vals (Some dv) = Inl TypeError)
      \<and> buildCombinedHostsFilter fieldName [] (Some dv)
          = Inr (Built (BuiltCombined Relation_OR [] dv)))
   \<and> (\<forall>f. getFieldByName dv fieldName = Some f \<longrightarrow>
      buildExistsHostsFilter fieldName (Some dv) = Inr (Built (BuiltExists f dv))
      \<and> buildCombinedHostsFilter fieldName vals (Some dv)
          = Inr (Built (BuiltCombined Relation_OR (map (\<lambda>v. BuiltPhrase f v dv) vals) dv)))"
  by (simp add: buildExistsHostsFilter_def buildCombinedHostsFilter_def buildExistsFilter_def
      buildCombinedFilter_def array_map_missing array_map_present)

theorem hosts_filters_missing_field_witness:
  "getFieldByName hostsView ''host.name'' = None
   \<and> buildExistsHostsFilter ''host.name'' (Some hostsView) = Inl TypeError
   \<and> buildCombinedHostsFilter ''host.name'' [''host-1'', ''host-2''] (Some hostsView) = Inl TypeError
   \<and> buildCombinedHostsFilter ''host.name'' [] (Some hostsView)
       = Inr (Built (BuiltCombined Relation_OR [] hostsView))
   \<and> getFieldByName hostsView ''B'' = Some fieldB
   \<and> buildExistsHostsFilter ''B'' (Some hostsView) = Inr (Built (BuiltExists fieldB hostsView))
   \<and> buildCombinedHostsFilter ''B'' [''host-1'', ''host-2''] (Some hostsView)
       = Inr (Built (BuiltCombined Relation_OR
           [BuiltPhrase fieldB ''host-1'' hostsView, BuiltPhrase fieldB ''host-2'' hostsView]
           hostsView))"
proof -
  have h: "getFieldByName hostsView ''host.name'' = None"
    by (simp add: getFieldByName_def hostsView_def fieldA_def fieldB_def)
  have g: "getFieldByName hostsView ''B'' = Some fieldB"
    by (simp add: getFieldByName_def hostsView_def fieldA_def fieldB_def)
  note missing = hosts_filters_missing_field[where dv = hostsView and fieldName = "''host.name''"
      and vals = "[''host-1'', ''host-2'']"]
  note present = hosts_filters_missing_field[where dv = hostsView and fieldName = "''B''"
      and vals = "[''host-1'', ''host-2'']"]
  from missing h
  have 1: "buildExistsHostsFilter ''host.name'' (Some hostsView) = Inl TypeError"
    and 2: "buildCombinedHostsFilter ''host.name'' [''host-1'', ''host-2''] (Some hostsView)
       = Inl TypeError"
    and 3: "buildCombinedHostsFilter ''host.name'' [] (Some hostsView)
       = Inr (Built (BuiltCombined Relation_OR [] hostsView))"
    by simp_all
  from present g
  have 4: "buildExistsHostsFilter ''B'' (Some hostsView) = Inr (Built (BuiltExists fieldB hostsView))"
    and 5: "buildCombinedHostsFilter ''B'' [''host-1'', ''host-2''] (Some hostsView)
       = Inr (Built (BuiltCombined Relation_OR
           [BuiltPhrase fieldB ''host-1'' hostsView, BuiltPhrase fieldB ''host-2'' hostsView]
           hostsView))"
    by simp_all
  from h g 1 2 3 4 5 show ?thesis by (intro conjI)
qed

text \<open>
  The claim as first stated has both builders fail on a missing field. For the data
  view \<open>hostsView\<close>, which has no field \<open>host.name\<close>, and the empty list of values,
  \<open>buildCombinedHostsFilter\<close> does not fail.
\<close>

theorem hosts_filters_missing_field_counterexample:
  "getFieldByName hostsView ''host.name'' = None
   \<and> \<not> (\<exists>e. buildCombinedHostsFilter ''host.name'' [] (Some hostsView) = Inl e)"
  by (simp add: getFieldByName_def hostsView_def fieldA_def fieldB_def
      buildCombinedHostsFilter_def buildCombinedFilter_def)

text \<open>
  C4. With \<open>allFields\<close> absent, \<open>calculateMultiFields\<close> returns \<open>undefined\<close> whatever the
  selection map is. The function has no error result: this is a normal return.
\<close>

theorem calculateMultiFields_absent:
  "calculateMultiFields None sel = None"
  by (simp add: calculateMultiFields_def)

text \<open>
  C5. For every selection, \<open>getSelectedFields\<close> resolves each name to the field the
  lookup finds and drops the names the lookup finds nothing for; the function is total
  and has no error result. The names of the resolved sequence are the names of the
  selection that match, in the order of the selection: with \<open>allFields\<close> present, the
  names that are the name of a field of \<open>allFields\<close>, and every resolved field is a field
  of \<open>allFields\<close>.
\<close>

theorem getSelectedFields_drops_unmatched:
  "selectedFields (getSelectedFields dv sel af mode)
       = List.map_filter (findSelectedField dv af) (selection sel)
   \<and> map name (selectedFields (getSelectedFields dv sel af mode))
       = filter (\<lambda>n. findSelectedField dv af n \<noteq> None) (selection sel)
   \<and> map name (selectedFields (getSelectedFields dv (Some ns) (Some fs) mode))
       = filter (\<lambda>n. n \<in> name ` set fs) ns
   \<and> set (selectedFields (getSelectedFields dv (Some ns) (Some fs) mode)) \<subseteq> set fs"
proof -
  have a: "selectedFields (getSelectedFields dv sel af mode)
       = List.map_filter (findSelectedField dv af) (selection sel)"
    by (rule getSelectedFields_fields)
  have b: "map name (selectedFields (getSelectedFields dv sel af mode))
       = filter (\<lambda>n. findSelectedField dv af n \<noteq> None) (selection sel)"
    by (simp only: a names_map_filter)
  have c: "map name (selectedFields (getSelectedFields dv (Some ns) (Some fs) mode))
       = filter (\<lambda>n. n \<in> name ` set fs) ns"
    by (simp only: getSelectedFields_fields names_map_filter findSelectedField_allFields)
       (simp add: selection_def)
  have d: "set (selectedFields (getSelectedFields dv (Some ns) (Some fs) mode)) \<subseteq> set fs"
  proof
    fix f assume "f \<in> set (selectedFields (getSelectedFields dv (Some ns) (Some fs) mode))"
    then obtain n where "findSelectedField dv (Some fs) n = Some f"
      by (auto simp: getSelectedFields_fields dest: map_filter_member)
    then show "f \<in> set fs"
      by (auto simp: findSelectedField_def find_Some_iff)
  qed
  show ?thesis using a b c d by blast
qed

theorem getSelectedFields_drops_unmatched_witness:
  "map name (selectedFields (getSelectedFields None (Some [''B'', ''stale'', ''A'', ''B''])
       (Some [fieldA, fieldB, fieldC, fieldD]) (Some ''documents'')))
     = [''B'', ''A'', ''B'']
   \<and> selectedFields (getSelectedFields None (Some [''B'', ''stale'', ''A'', ''B''])
       (Some [fieldA, fieldB, fieldC, fieldD]) (Some ''documents''))
     = [fieldB, fieldA, fieldB]
   \<and> selectedFields (getSelectedFields (Some hostsView) (Some [''C'', ''B'']) None None)
     = [fieldB]"
proof -
  let ?ns = "[''B'', ''stale'', ''A'', ''B'']"
  let ?fs = "[fieldA, fieldB, fieldC, fieldD]"
  note inst = getSelectedFields_drops_unmatched[where dv = None and sel = "Some ?ns"
      and af = "Some ?fs" and mode = "Some ''documents''" and ns = ?ns and fs = ?fs]
  note inst' = getSelectedFields_drops_unmatched[where dv = "Some hostsView"
      and sel = "Some [''C'', ''B'']" and af = None and mode = None]
  have n: "filter (\<lambda>n. n \<in> name ` set ?fs) ?ns = [''B'', ''A'', ''B'']"
    by (simp add: fieldA_def fieldB_def fieldC_def fieldD_def)
  have f: "List.map_filter (findSelectedField None (Some ?fs)) (selection (Some ?ns))
      = [fieldB, fieldA, fieldB]"
    by (simp add: List.map_filter_def findSelectedField_def selection_def
        fieldA_def fieldB_def fieldC_def fieldD_def)
  have g: "List.map_filter (findSelectedField (Some hostsView) None) (selection (Some [''C'', ''B'']))
      = [fieldB]"
    by (simp add: List.map_filter_def findSelectedField_def selection_def getFieldByName_def
        hostsView_def fieldA_def fieldB_def)
  from inst have 1: "map name (selectedFields (getSelectedFields None (Some ?ns) (Some ?fs)
       (Some ''documents''))) = filter (\<lambda>n. n \<in> name ` set ?fs) ?ns"
    by (elim conjE)
  from inst have 2: "selectedFields (getSelectedFields None (Some ?ns) (Some ?fs)
       (Some ''documents''))
     = List.map_filter (findSelectedField None (Some ?fs)) (selection (Some ?ns))"
    by (elim conjE)
  from inst' have 3: "selectedFields (getSelectedFields (Some hostsView) (Some [''C'', ''B''])
       None None)
     = List.map_filter (findSelectedField (Some hostsView) None) (selection (Some [''C'', ''B'']))"
    by (rule conjunct1)
  show ?thesis
    unfolding 1 n unfolding 2 3 f g by simp
qed

text \<open>
  C6. In every result of \<open>getSelectedFields\<close> the sequence and the mapping agree: the
  keys of \<open>selectedFieldsMap\<close> are exactly the names of the fields of \<open>selectedFields\<close>.
  Every key is the name of a field of the sequence, and every field of the sequence has
  its name in the mapping, with the value \<open>true\<close>.
\<close>

theorem getSelectedFields_map_agrees:
  "dom (selectedFieldsMap (getSelectedFields dv sel af mode))
       = name ` set (selectedFields (getSelectedFields dv sel af mode))
   \<and> (\<forall>n. n \<in> dom (selectedFieldsMap (getSelectedFields dv sel af mode)) \<longrightarrow>
          (\<exists>f \<in> set (selectedFields (getSelectedFields dv sel af mode)). name f = n))
   \<and> (\<forall>f \<in> set (selectedFields (getSelectedFields dv sel af mode)).
          selectedFieldsMap (getSelectedFields dv sel af mode) (name f) = Some True)"
proof -
  let ?r = "getSelectedFields dv sel af mode"
  have m: "selectedFieldsMap ?r k
     = (if k \<in> name ` set (selectedFields ?r) then Some True else None)" for k
    by (rule getSelectedFields_map)
  have "dom (selectedFieldsMap ?r) = name ` set (selectedFields ?r)"
    by (auto simp: dom_def m)
  moreover have "\<forall>f \<in> set (selectedFields ?r). selectedFieldsMap ?r (name f) = Some True"
    by (simp add: m)
  ultimately show ?thesis by auto
qed

theorem getSelectedFields_map_agrees_witness:
  "selectedFields (getSelectedFields None (Some [''B'', ''stale'', ''A''])
       (Some [fieldA, fieldB, fieldC, fieldD]) (Some ''documents''))
     = [fieldB, fieldA]
   \<and> dom (selectedFieldsMap (getSelectedFields None (Some [''B'', ''stale'', ''A''])
       (Some [fieldA, fieldB, fieldC, fieldD]) (Some ''documents'')))
     = {''A'', ''B''}
   \<and> selectedFieldsMap (getSelectedFields None (Some [''B'', ''stale'', ''A''])
       (Some [fieldA, fieldB, fieldC, fieldD]) (Some ''documents'')) (name fieldB) = Some True"
proof -
  let ?r = "getSelectedFields None (Some [''B'', ''stale'', ''A''])
       (Some [fieldA, fieldB, fieldC, fieldD]) (Some ''documents'')"
  have f: "selectedFields ?r = [fieldB, fieldA]"
    by (simp add: getSelectedFields_fields List.map_filter_def findSelectedField_def
        selection_def fieldA_def fieldB_def fieldC_def fieldD_def)
  note inst = getSelectedFields_map_agrees[where dv = None and sel = "Some [''B'', ''stale'', ''A'']"
      and af = "Some [fieldA, fieldB, fieldC, fieldD]" and mode = "Some ''documents''",
      unfolded f]
  from inst have d: "dom (selectedFieldsMap ?r) = name ` set [fieldB, fieldA]"
    by (elim conjE)
  from inst have "\<forall>f \<in> set [fieldB, fieldA]. selectedFieldsMap ?r (name f) = Some True"
    by (elim conjE)
  then have t: "selectedFieldsMap ?r (name fieldB) = Some True"
    by simp
  have "name ` set [fieldB, fieldA] = {''A'', ''B''}"
    by (auto simp: fieldA_def fieldB_def)
  with d f t show ?thesis by simp
qed

text \<open>
  C7. The keys of the map that \<open>calculateMultiFields\<close> returns are exactly the parents
  that some field of \<open>allFields\<close> declares. So a field that declares a parent of its own
  is a key of the map only if some field of \<open>allFields\<close> declares it as parent.
\<close>

theorem calculateMultiFields_keys_are_parents:
  "calculateMultiFields (Some allFields) sel = Some m \<Longrightarrow>
     (\<forall>k. k \<in> fst ` set m \<longleftrightarrow> (\<exists>g\<in>set allFields. declaresParent g k))
     \<and> (\<forall>f p. declaresParent f p \<and> name f \<in> fst ` set m \<longrightarrow>
           (\<exists>g\<in>set allFields. declaresParent g (name f)))"
proof -
  assume "calculateMultiFields (Some allFields) sel = Some m"
  then have m: "m = foldl (multiFieldsStep sel) [] allFields"
    by (simp add: calculateMultiFields_def)
  have keys: "fst ` set m = {p. \<exists>f\<in>set allFields. declaresParent f p}"
    unfolding m by (simp add: keys_foldl)
  show ?thesis unfolding keys by simp
qed

theorem calculateMultiFields_keys_are_parents_witness:
  "calculateMultiFields (Some [fieldB, fieldE]) None
     = Some [(''A'', [\<lparr>field = fieldB, isSelected = False\<rparr>]),
             (''B'', [\<lparr>field = fieldE, isSelected = False\<rparr>])]
   \<and> declaresParent fieldB ''A''
   \<and> name fieldB \<in> fst ` set [(''A'', [\<lparr>field = fieldB, isSelected = False\<rparr>]),
                                (''B'', [\<lparr>field = fieldE, isSelected = False\<rparr>])]
   \<and> (\<exists>g\<in>set [fieldB, fieldE]. declaresParent g (name fieldB))"
proof -
  let ?m = "[(''A'', [\<lparr>field = fieldB, isSelected = False\<rparr>]),
             (''B'', [\<lparr>field = fieldE, isSelected = False\<rparr>])]"
  have calc: "calculateMultiFields (Some [fieldB, fieldE]) None = Some ?m"
    by (simp add: calculateMultiFields_def multiFieldsStep_def getDataViewFieldSubtypeMulti_def
        fieldB_def fieldE_def truthy_string_def isSelectedIn_def Map_get_def Map_set_def)
  have dB: "declaresParent fieldB ''A''"
    by (simp add: declaresParent_def fieldB_def)
  have key: "name fieldB \<in> fst ` set ?m"
    by (simp add: fieldB_def)
  from calculateMultiFields_keys_are_parents[OF calc] dB key
  have "\<exists>g\<in>set [fieldB, fieldE]. declaresParent g (name fieldB)"
    by blast
  then show ?thesis using calc dB key by simp
qed

text \<open>
  C8. Without a data view, \<open>buildExistsHostsFilter\<close> returns the plain object
  \<open>{meta: {}, query: {exists: {field}}}\<close> and \<open>buildCombinedHostsFilter\<close> the plain object
  \<open>{query: {terms: {[field]: values}}, meta: {}}\<close>, for every field name and every list
  of values.
\<close>

theorem hosts_filters_without_dataView:
  "buildExistsHostsFilter fieldName None
     = Inr (RawQuery (JObject
         [(''meta'', JObject []),
          (''query'', JObject [(''exists'', JObject [(''field'', JString fieldName)])])]))
   \<and> buildCombinedHostsFilter fieldName vals None
     = Inr (RawQuery (JObject
         [(''query'', JObject [(''terms'', JObject [(fieldName, JArray (map JString vals))])]),
          (''meta'', JObject [])]))"
  by (simp add: buildExistsHostsFilter_def buildCombinedHostsFilter_def)

text \<open>
  C9. Recomputing both derived structures twice from the same inputs gives structurally
  equal outputs. The second recomputation starts in the heap the first one left. Both
  give the same selected fields result; each allocates a map of its own, and the two
  maps hold the same keys and buckets, those of \<open>calculateMultiFields\<close> on the inputs.
  The second run leaves the first run's map as it was, and neither run changes an
  object that was in the heap before it. With \<open>allFields\<close> absent nothing is allocated.
\<close>

theorem recompute_twice_structurally_equal:
  "(\<exists>r1 h1 r2 h2.
      recompute dv sel (Some fs) mode h
        = Some (getSelectedFields dv sel (Some fs) mode, Some r1, h1)
    \<and> recompute dv sel (Some fs) mode h1
        = Some (getSelectedFields dv sel (Some fs) mode, Some r2, h2)
    \<and> r1 \<noteq> r2
    \<and> read_Map h1 r1
        = calculateMultiFields (Some fs)
            (Some (selectedFieldsMap (getSelectedFields dv sel (Some fs) mode)))
    \<and> read_Map h2 r2 = read_Map h1 r1
    \<and> read_Map h2 r1 = read_Map h1 r1
    \<and> heap_extends h h1 \<and> heap_extends h1 h2)
   \<and> recompute dv sel None mode h = Some (getSelectedFields dv sel None mode, None, h)"
proof -
  let ?sm = "Some (selectedFieldsMap (getSelectedFields dv sel (Some fs) mode))"
  from calculate_heap_twice[of fs ?sm h]
  obtain r1 h1 r2 h2 where
    "calculateMultiFields_heap (Some fs) ?sm h = Some (Some r1, h1)"
    "calculateMultiFields_heap (Some fs) ?sm h1 = Some (Some r2, h2)"
    "r1 \<noteq> r2"
    "read_Map h1 r1 = calculateMultiFields (Some fs) ?sm"
    "read_Map h2 r2 = read_Map h1 r1"
    "read_Map h2 r1 = read_Map h1 r1"
    "heap_extends h h1" "heap_extends h1 h2"
    by blast
  then have "recompute dv sel (Some fs) mode h
        = Some (getSelectedFields dv sel (Some fs) mode, Some r1, h1)
    \<and> recompute dv sel (Some fs) mode h1
        = Some (getSelectedFields dv sel (Some fs) mode, Some r2, h2)
    \<and> r1 \<noteq> r2
    \<and> read_Map h1 r1 = calculateMultiFields (Some fs) ?sm
    \<and> read_Map h2 r2 = read_Map h1 r1
    \<and> read_Map h2 r1 = read_Map h1 r1
    \<and> heap_extends h h1 \<and> heap_extends h1 h2"
    by (simp add: recompute_def)
  then have first: "\<exists>r1 h1 r2 h2.
      recompute dv sel (Some fs) mode h
        = Some (getSelectedFields dv sel (Some fs) mode, Some r1, h1)
    \<and> recompute dv sel (Some fs) mode h1
        = Some (getSelectedFields dv sel (Some fs) mode, Some r2, h2)
    \<and> r1 \<noteq> r2
    \<and> read_Map h1 r1 = calculateMultiFields (Some fs) ?sm
    \<and> read_Map h2 r2 = read_Map h1 r1
    \<and> read_Map h2 r1 = read_Map h1 r1
    \<and> heap_extends h h1 \<and> heap_extends h1 h2"
    by blast
  have second: "recompute dv sel None mode h = Some (getSelectedFields dv sel None mode, None, h)"
    by (simp add: recompute_def calculate_heap_absent)
  from first second show ?thesis by (rule conjI)
qed

theorem recompute_twice_structurally_equal_witness:
  "recompute None (Some [''B'']) (Some [fieldA, fieldB, fieldC]) (Some ''documents'') emptyHeap
     = Some (\<lparr>selectedFields = [fieldB], selectedFieldsMap = [''B'' \<mapsto> True]\<rparr>, Some 0, heapAfterOne)
   \<and> recompute None (Some [''B'']) (Some [fieldA, fieldB, fieldC]) (Some ''documents'') heapAfterOne
     = Some (\<lparr>selectedFields = [fieldB], selectedFieldsMap = [''B'' \<mapsto> True]\<rparr>, Some 1, heapAfterTwo)
   \<and> read_Map heapAfterOne 0 = Some [(''A'', bucketA)]
   \<and> read_Map heapAfterTwo 1 = Some [(''A'', bucketA)]
   \<and> read_Map heapAfterTwo 0 = Some [(''A'', bucketA)]
   \<and> heap_extends emptyHeap heapAfterOne
   \<and> heap_extends heapAfterOne heapAfterTwo"
proof -
  let ?fs = "[fieldA, fieldB, fieldC]"
  let ?res = "\<lparr>selectedFields = [fieldB], selectedFieldsMap = [''B'' \<mapsto> True]\<rparr>"
  have sel: "getSelectedFields None (Some [''B'']) (Some ?fs) (Some ''documents'') = ?res"
    by (simp add: getSelectedFields_def selectField_def findSelectedField_def
        INITIAL_SELECTED_FIELDS_RESULT_def fieldA_def fieldB_def fieldC_def)
  have run1: "calculateMultiFields_heap (Some ?fs) (Some [''B'' \<mapsto> True]) emptyHeap
      = Some (Some 0, heapAfterOne)"
    by (simp add: calculateMultiFields_heap_def new_Map_def multiFieldsStep_heap_def
        getDataViewFieldSubtypeMulti_def truthy_string_def isSelectedIn_def getProperty_def
        Object_prototype_members_def HeapMap_get_def HeapMap_set_def Array_push_def new_Array_def
        emptyHeap_def heapAfterOne_def bucketA_def fieldA_def fieldB_def fieldC_def)
  have run2: "calculateMultiFields_heap (Some ?fs) (Some [''B'' \<mapsto> True]) heapAfterOne
      = Some (Some 1, heapAfterTwo)"
    by (simp add: calculateMultiFields_heap_def new_Map_def multiFieldsStep_heap_def
        getDataViewFieldSubtypeMulti_def truthy_string_def isSelectedIn_def getProperty_def
        Object_prototype_members_def HeapMap_get_def HeapMap_set_def Array_push_def new_Array_def
        heapAfterOne_def heapAfterTwo_def bucketA_def fieldA_def fieldB_def fieldC_def)
  have rec1: "recompute None (Some [''B'']) (Some ?fs) (Some ''documents'') emptyHeap
      = Some (?res, Some 0, heapAfterOne)"
    by (simp add: recompute_def sel run1)
  have rec2: "recompute None (Some [''B'']) (Some ?fs) (Some ''documents'') heapAfterOne
      = Some (?res, Some 1, heapAfterTwo)"
    by (simp add: recompute_def sel run2)
  have pure: "calculateMultiFields (Some ?fs) (Some [''B'' \<mapsto> True]) = Some [(''A'', bucketA)]"
    by (simp add: calculateMultiFields_def multiFieldsStep_def getDataViewFieldSubtypeMulti_def
        truthy_string_def isSelectedIn_def getProperty_def Object_prototype_members_def
        Map_get_def Map_set_def bucketA_def fieldA_def fieldB_def fieldC_def)
  from recompute_twice_structurally_equal[where dv = None and sel = "Some [''B'']"
      and fs = ?fs and mode = "Some ''documents''" and h = emptyHeap, THEN conjunct1]
  obtain r1 h1 r2 h2 where
    a: "recompute None (Some [''B'']) (Some ?fs) (Some ''documents'') emptyHeap
        = Some (getSelectedFields None (Some [''B'']) (Some ?fs) (Some ''documents''), Some r1, h1)"
    and b: "recompute None (Some [''B'']) (Some ?fs) (Some ''documents'') h1
        = Some (getSelectedFields None (Some [''B'']) (Some ?fs) (Some ''documents''), Some r2, h2)"
    and c: "read_Map h1 r1 = calculateMultiFields (Some ?fs)
        (Some (selectedFieldsMap (getSelectedFields None (Some [''B'']) (Some ?fs) (Some ''documents''))))"
    and d: "read_Map h2 r2 = read_Map h1 r1"
    and e: "read_Map h2 r1 = read_Map h1 r1"
    and f: "heap_extends emptyHeap h1" and g: "heap_extends h1 h2"
    by blast
  from a rec1 have r1: "r1 = 0" and h1: "h1 = heapAfterOne" by simp_all
  from b rec2 h1 have r2: "r2 = 1" and h2: "h2 = heapAfterTwo" by simp_all
  from c have c': "read_Map heapAfterOne 0 = Some [(''A'', bucketA)]"
    unfolding r1 h1 sel by (simp add: pure)
  from d c' have d': "read_Map heapAfterTwo 1 = Some [(''A'', bucketA)]"
    unfolding r1 h1 r2 h2 by simp
  from e c' have e': "read_Map heapAfterTwo 0 = Some [(''A'', bucketA)]"
    unfolding r1 h1 r2 h2 by simp
  from f g have "heap_extends emptyHeap heapAfterOne" "heap_extends heapAfterOne heapAfterTwo"
    unfolding h1 h2 by simp_all
  with rec1 rec2 c' d' e' show ?thesis by (intro conjI)
qed

text \<open>
  C10. \<open>retrieveFieldsFromFilter\<close> returns the reference it was given, and the store it
  leaves differs from the one it found only in that array, which is extended by the
  keys of the filters: the filters are visited in order, a filter gives its own
  \<open>meta.key\<close> when that is a non-empty string and nothing otherwise, and a combined
  filter gives the keys of the filters in its \<open>meta.params\<close> first and its own key after
  them. With the accumulator omitted, the result is a new array holding those keys.
\<close>

theorem retrieveFieldsFromFilter_collects:
  "retrieveFieldsFromFilter filters r s
     = (r, s\<lparr>arrays := (arrays s)(r := arrays s r @ keysOfFilters filters)\<rparr>)
   \<and> retrieveFieldsFromFilter_default filters s
     = (next_ref s,
        s\<lparr>arrays := (arrays s)(next_ref s := keysOfFilters filters),
          next_ref := Suc (next_ref s)\<rparr>)"
  by (simp add: retrieve_extend extend_at_def retrieveFieldsFromFilter_default_def array_new_def)

theorem retrieveFieldsFromFilter_collects_witness:
  "keysOfFilters exampleFilters = [''host.name'', ''a'', ''b'', ''combo'', ''c'']
   \<and> fst (retrieveFieldsFromFilter exampleFilters 0 (array_push emptyStore 0 ''x'')) = 0
   \<and> arrays (snd (retrieveFieldsFromFilter exampleFilters 0 (array_push emptyStore 0 ''x''))) 0
       = [''x'', ''host.name'', ''a'', ''b'', ''combo'', ''c'']
   \<and> arrays (snd (retrieveFieldsFromFilter exampleFilters 0 (array_push emptyStore 0 ''x''))) 1 = []
   \<and> fst (retrieveFieldsFromFilter_default exampleFilters emptyStore) = 0
   \<and> arrays (snd (retrieveFieldsFromFilter_default exampleFilters emptyStore)) 0
       = [''host.name'', ''a'', ''b'', ''combo'', ''c'']"
proof -
  have k: "keysOfFilters exampleFilters = [''host.name'', ''a'', ''b'', ''combo'', ''c'']"
    by (simp add: keysOfFilters_def exampleFilters_def ownKey_def)
  note inst = retrieveFieldsFromFilter_collects[where filters = exampleFilters and r = 0
      and s = "array_push emptyStore 0 ''x''", unfolded k]
  note inst' = retrieveFieldsFromFilter_collects[where filters = exampleFilters
      and s = emptyStore, unfolded k]
  from inst have 1: "retrieveFieldsFromFilter exampleFilters 0 (array_push emptyStore 0 ''x'')
      = (0, (array_push emptyStore 0 ''x'')\<lparr>arrays := (arrays (array_push emptyStore 0 ''x''))
          (0 := arrays (array_push emptyStore 0 ''x'') 0 @ [''host.name'', ''a'', ''b'', ''combo'', ''c''])\<rparr>)"
    by (rule conjunct1)
  from inst' have 2: "retrieveFieldsFromFilter_default exampleFilters emptyStore
      = (next_ref emptyStore,
         emptyStore\<lparr>arrays := (arrays emptyStore)(next_ref emptyStore := [''host.name'', ''a'', ''b'', ''combo'', ''c'']),
           next_ref := Suc (next_ref emptyStore)\<rparr>)"
    by (rule conjunct2)
  show ?thesis
    unfolding 1 2 k by (simp add: array_push_def emptyStore_def)
qed

end
